theory Spec2Isabelle
  imports Main
begin

section \<open>Data model\<close>

text \<open>
  The types of \<^verbatim>\<open>types/CoveyTownSocket\<close> that the controller reads. Identifiers are
  JavaScript strings. A value of type \<^verbatim>\<open>T | undefined\<close> is a \<open>T option\<close>, with
  \<open>None\<close> for \<^verbatim>\<open>undefined\<close>.
\<close>

type_synonym PlayerID = string
type_synonym GameInstanceID = string
type_synonym InteractableID = string

datatype GameStatus = IN_PROGRESS | WAITING_TO_START | OVER

text \<open>The game piece \<^verbatim>\<open>'X' | 'O'\<close>; a cell is a piece or \<^verbatim>\<open>undefined\<close>.\<close>

datatype GamePiece = PieceX | PieceO

type_synonym TicTacToeCell = "GamePiece option"

text \<open>
  A move. The declared type of \<^verbatim>\<open>row\<close> and \<^verbatim>\<open>col\<close> is the literal union
  \<^verbatim>\<open>0 | 1 | 2\<close>; they are natural numbers here, and what the board derivation does
  with an index of 3 or more is written out below.
\<close>

record TicTacToeMove =
  m_gamePiece :: GamePiece
  m_row :: nat
  m_col :: nat

record TicTacToeGameState =
  s_status :: GameStatus
  s_x :: "PlayerID option"
  s_o :: "PlayerID option"
  s_moves :: "TicTacToeMove list"
  s_winner :: "PlayerID option"

text \<open>
  A game result maps player names to scores. The object is kept as the list of its
  entries in the order \<^verbatim>\<open>Object.keys\<close> enumerates them.
\<close>

record GameResult =
  r_gameID :: GameInstanceID
  r_scores :: "(string \<times> int) list"

record GameInstance =
  g_id :: GameInstanceID
  g_players :: "PlayerID list"
  g_state :: TicTacToeGameState

record GameArea =
  a_id :: InteractableID
  a_occupants :: "PlayerID list"
  a_history :: "GameResult list"
  a_game :: "GameInstance option"

text \<open>
  A \<^verbatim>\<open>PlayerController\<close> is an object: the controller compares players with
  \<^verbatim>\<open>===\<close>, which is identity of objects. A player is therefore a reference, and the
  town controller carries the store that gives each player object its (read-only)
  \<^verbatim>\<open>id\<close>.
\<close>

type_synonym PlayerController = nat

record TownController =
  ourPlayer :: PlayerController
  player_id :: "PlayerController \<Rightarrow> PlayerID"

text \<open>
  The fields of the controller: \<^verbatim>\<open>id\<close>, and the protected fields \<^verbatim>\<open>_model\<close>,
  \<^verbatim>\<open>_players\<close> (what the getter \<^verbatim>\<open>players\<close> returns), \<^verbatim>\<open>_instanceID\<close> and
  \<^verbatim>\<open>_townController\<close> of the base class.
\<close>

record TicTacToeAreaController =
  c_id :: InteractableID
  c_model :: GameArea
  c_players :: "PlayerController list"
  c_instanceID :: "GameInstanceID option"
  c_townController :: TownController

text \<open>A thrown \<^verbatim>\<open>Error\<close> with its message, or the engine's \<^verbatim>\<open>TypeError\<close>.\<close>

datatype Error = Error string | TypeError

definition PLAYER_NOT_IN_GAME_ERROR :: string where
  "PLAYER_NOT_IN_GAME_ERROR = ''Player is not in game''"

definition NO_GAME_IN_PROGRESS_ERROR :: string where
  "NO_GAME_IN_PROGRESS_ERROR = ''No game in progress''"

text \<open>The events of the controller: those of the base class (of any type \<open>'e\<close>) and its own two.\<close>

datatype 'e TicTacToeEvents =
  GameEventTypes 'e
| boardChanged "TicTacToeCell list list"
| turnChanged bool

section \<open>JavaScript truthiness\<close>

text \<open>
  A string is truthy when it is not empty, \<^verbatim>\<open>undefined\<close> is falsy, and a function
  object is always truthy.
\<close>

definition truthy_string :: "string option \<Rightarrow> bool" where
  "truthy_string v = (case v of None \<Rightarrow> False | Some s \<Rightarrow> s \<noteq> [])"

definition truthy_function :: "('a \<Rightarrow> 'b) \<Rightarrow> bool" where
  "truthy_function f = True"

section \<open>The derived accessors\<close>

text \<open>\<^verbatim>\<open>this._model.game?.state\<close>\<close>

definition gameState :: "TicTacToeAreaController \<Rightarrow> TicTacToeGameState option" where
  "gameState c = map_option g_state (a_game (c_model c))"

text \<open>\<^verbatim>\<open>this._model.game?.state.moves || []\<close>\<close>

definition model_moves :: "TicTacToeAreaController \<Rightarrow> TicTacToeMove list" where
  "model_moves c = (case gameState c of None \<Rightarrow> [] | Some gs \<Rightarrow> s_moves gs)"

text \<open>
  Writing \<^verbatim>\<open>a[j] = v\<close> on a JavaScript array: inside the array the element is
  replaced; at or beyond its length the array grows to length \<open>j + 1\<close> and the
  indices in between are holes, which read as \<^verbatim>\<open>undefined\<close>.
\<close>

definition array_set :: "TicTacToeCell list \<Rightarrow> nat \<Rightarrow> TicTacToeCell \<Rightarrow> TicTacToeCell list" where
  "array_set a j v =
     (if j < length a then a[j := v] else a @ replicate (j - length a) None @ [v])"

text \<open>
  The loop of the getter \<^verbatim>\<open>board\<close>. \<^verbatim>\<open>board[row]\<close> is \<^verbatim>\<open>undefined\<close> when
  \<open>row\<close> is not an index of the three rows, and the assignment into it throws.
\<close>

fun board_loop :: "TicTacToeMove list \<Rightarrow> TicTacToeCell list list \<Rightarrow> Error + TicTacToeCell list list" where
  "board_loop [] b = Inr b"
| "board_loop (currMove # rest) b =
     (if m_row currMove < length b
      then board_loop rest
             (b[m_row currMove := array_set (b ! m_row currMove) (m_col currMove) (Some (m_gamePiece currMove))])
      else Inl TypeError)"

definition emptyBoard :: "TicTacToeCell list list" where
  "emptyBoard = [[None, None, None], [None, None, None], [None, None, None]]"

definition board :: "TicTacToeAreaController \<Rightarrow> Error + TicTacToeCell list list" where
  "board c = (let moves = model_moves c in board_loop moves emptyBoard)"

text \<open>
  \<^verbatim>\<open>this._model.game?.state.x\<close>, and the same for \<^verbatim>\<open>o\<close> and \<^verbatim>\<open>winner\<close>: the
  identifier recorded in the snapshot, \<^verbatim>\<open>undefined\<close> without a game.
\<close>

definition model_x :: "TicTacToeAreaController \<Rightarrow> PlayerID option" where
  "model_x c = (case gameState c of None \<Rightarrow> None | Some gs \<Rightarrow> s_x gs)"

definition model_o :: "TicTacToeAreaController \<Rightarrow> PlayerID option" where
  "model_o c = (case gameState c of None \<Rightarrow> None | Some gs \<Rightarrow> s_o gs)"

definition model_winner :: "TicTacToeAreaController \<Rightarrow> PlayerID option" where
  "model_winner c = (case gameState c of None \<Rightarrow> None | Some gs \<Rightarrow> s_winner gs)"

text \<open>The getters \<^verbatim>\<open>x\<close>, \<^verbatim>\<open>o\<close> and \<^verbatim>\<open>winner\<close>: \<^verbatim>\<open>Array.find\<close> over the players.\<close>

definition get_x :: "TicTacToeAreaController \<Rightarrow> PlayerController option" where
  "get_x c = find (\<lambda>player. model_x c = Some (player_id (c_townController c) player)) (c_players c)"

definition get_o :: "TicTacToeAreaController \<Rightarrow> PlayerController option" where
  "get_o c = find (\<lambda>player. model_o c = Some (player_id (c_townController c) player)) (c_players c)"

definition winner :: "TicTacToeAreaController \<Rightarrow> PlayerController option" where
  "winner c = find (\<lambda>player. model_winner c = Some (player_id (c_townController c) player)) (c_players c)"

definition moveCount :: "TicTacToeAreaController \<Rightarrow> nat" where
  "moveCount c = (let moves = model_moves c in length moves)"

text \<open>The \<^verbatim>\<open>for ... of\<close> loop of \<^verbatim>\<open>whoseTurn\<close>, which returns at the first match.\<close>

fun whoseTurn_loop ::
  "TicTacToeAreaController \<Rightarrow> TicTacToeGameState \<Rightarrow> PlayerController list \<Rightarrow> PlayerController option" where
  "whoseTurn_loop c gs [] = None"
| "whoseTurn_loop c gs (player # rest) =
     (if moveCount c mod 2 = 0 \<and> truthy_string (s_x gs)
         \<and> Some (player_id (c_townController c) player) = s_x gs
      then Some player
      else if moveCount c mod 2 \<noteq> 0 \<and> truthy_string (s_o gs)
         \<and> Some (player_id (c_townController c) player) = s_o gs
      then Some player
      else whoseTurn_loop c gs rest)"

definition whoseTurn :: "TicTacToeAreaController \<Rightarrow> PlayerController option" where
  "whoseTurn c =
     (case gameState c of
        None \<Rightarrow> None
      | Some gs \<Rightarrow>
          if s_status gs = IN_PROGRESS then whoseTurn_loop c gs (c_players c) else None)"

definition isOurTurn :: "TicTacToeAreaController \<Rightarrow> bool" where
  "isOurTurn c =
     (case gameState c of
        None \<Rightarrow> False
      | Some gs \<Rightarrow>
          if s_status gs \<noteq> IN_PROGRESS then False
          else Some (ourPlayer (c_townController c)) = whoseTurn c)"

definition isPlayer :: "TicTacToeAreaController \<Rightarrow> bool" where
  "isPlayer c =
     (let currentPlayer = ourPlayer (c_townController c)
      in list_ex (\<lambda>player. player_id (c_townController c) player
                             = player_id (c_townController c) currentPlayer)
                 (c_players c))"

definition gamePiece :: "TicTacToeAreaController \<Rightarrow> Error + GamePiece" where
  "gamePiece c =
     (if \<not> isPlayer c then Inl (Error PLAYER_NOT_IN_GAME_ERROR)
      else let currentPlayer = ourPlayer (c_townController c)
           in Inr (if Some currentPlayer = get_x c then PieceX else PieceO))"

definition status :: "TicTacToeAreaController \<Rightarrow> GameStatus" where
  "status c = (case gameState c of None \<Rightarrow> WAITING_TO_START | Some gs \<Rightarrow> s_status gs)"

definition isActive :: "TicTacToeAreaController \<Rightarrow> bool" where
  "isActive c = (if status c = IN_PROGRESS then True else False)"

section \<open>Requesting a move\<close>

text \<open>The command \<^verbatim>\<open>{type: 'GameMove', gameID, move}\<close>.\<close>

record GameMoveCommand =
  cmd_gameID :: GameInstanceID
  cmd_move :: TicTacToeMove

text \<open>
  \<^verbatim>\<open>makeMove\<close>. The transport \<^verbatim>\<open>sendInteractableCommand\<close> is a parameter: it either
  rejects with an error or resolves. The result is the list of the calls made to the
  transport, with their arguments, and how the call to \<^verbatim>\<open>makeMove\<close> ends.

  The first test of the source is \<^verbatim>\<open>!this.isActive\<close>: the method is not called, the
  test is on the function object.
\<close>

definition makeMove ::
  "(InteractableID \<Rightarrow> GameMoveCommand \<Rightarrow> Error + unit) \<Rightarrow> nat \<Rightarrow> nat \<Rightarrow> TicTacToeAreaController
     \<Rightarrow> (InteractableID \<times> GameMoveCommand) list \<times> (Error + unit)" where
  "makeMove sendInteractableCommand row col c =
     (if \<not> truthy_function isActive then ([], Inl (Error NO_GAME_IN_PROGRESS_ERROR))
      else if \<not> truthy_string (c_instanceID c) then ([], Inl (Error NO_GAME_IN_PROGRESS_ERROR))
      else case gamePiece c of
             Inl e \<Rightarrow> ([], Inl e)
           | Inr piece \<Rightarrow>
               (let gameMoveRequest =
                      \<lparr>cmd_gameID = the (c_instanceID c),
                       cmd_move = \<lparr>m_gamePiece = piece, m_row = row, m_col = col\<rparr>\<rparr>
                in ([(c_id c, gameMoveRequest)], sendInteractableCommand (c_id c) gameMoveRequest)))"

section \<open>Applying a snapshot\<close>

text \<open>
  Reading \<^verbatim>\<open>board[i][j]\<close>: a missing row makes the read throw, a missing column
  reads as \<^verbatim>\<open>undefined\<close>.
\<close>

definition read_cell :: "TicTacToeCell list list \<Rightarrow> nat \<Rightarrow> nat \<Rightarrow> Error + TicTacToeCell" where
  "read_cell b i j =
     (if i < length b then Inr (if j < length (b ! i) then b ! i ! j else None)
      else Inl TypeError)"

text \<open>
  The two loops of \<^verbatim>\<open>_areBoardEqual\<close>, over the indices 0, 1, 2. \<open>Inr False\<close> is the
  early \<^verbatim>\<open>return false\<close>; \<open>Inr True\<close> says that the loop ran to its end.
\<close>

fun areBoardEqual_cols ::
  "TicTacToeCell list list \<Rightarrow> TicTacToeCell list list \<Rightarrow> nat \<Rightarrow> nat list \<Rightarrow> Error + bool" where
  "areBoardEqual_cols board1 board2 i [] = Inr True"
| "areBoardEqual_cols board1 board2 i (j # js) =
     (case read_cell board1 i j of
        Inl e \<Rightarrow> Inl e
      | Inr v1 \<Rightarrow>
          (case read_cell board2 i j of
             Inl e \<Rightarrow> Inl e
           | Inr v2 \<Rightarrow> if v1 \<noteq> v2 then Inr False else areBoardEqual_cols board1 board2 i js))"

fun areBoardEqual_rows ::
  "TicTacToeCell list list \<Rightarrow> TicTacToeCell list list \<Rightarrow> nat list \<Rightarrow> Error + bool" where
  "areBoardEqual_rows board1 board2 [] = Inr True"
| "areBoardEqual_rows board1 board2 (i # is) =
     (case areBoardEqual_cols board1 board2 i [0, 1, 2] of
        Inl e \<Rightarrow> Inl e
      | Inr ran_through \<Rightarrow>
          if ran_through then areBoardEqual_rows board1 board2 is else Inr False)"

definition areBoardEqual :: "TicTacToeCell list list \<Rightarrow> TicTacToeCell list list \<Rightarrow> Error + bool" where
  "areBoardEqual board1 board2 = areBoardEqual_rows board1 board2 [0, 1, 2]"

text \<open>
  The protected method \<^verbatim>\<open>_updateFrom\<close>. The method of the base class that it calls,
  \<^verbatim>\<open>super._updateFrom\<close>, is a parameter of the model: any function from the new model
  and the controller to the updated controller and the events of the base class that
  it emitted. The result is the controller afterwards, the events emitted in order, and
  the error that escaped, if one did.
\<close>

definition updateFrom ::
  "(GameArea \<Rightarrow> TicTacToeAreaController \<Rightarrow> TicTacToeAreaController \<times> 'e list)
     \<Rightarrow> GameArea \<Rightarrow> TicTacToeAreaController
     \<Rightarrow> TicTacToeAreaController \<times> 'e TicTacToeEvents list \<times> Error option" where
  "updateFrom super_updateFrom newModel c =
     (case board c of
        Inl e \<Rightarrow> (c, [], Some e)
      | Inr oldBoard \<Rightarrow>
          (let oldIsOurTurn = isOurTurn c;
               c' = fst (super_updateFrom newModel c);
               emitted0 = map GameEventTypes (snd (super_updateFrom newModel c))
           in case board c' of
                Inl e \<Rightarrow> (c', emitted0, Some e)
              | Inr newBoard \<Rightarrow>
                  (case areBoardEqual oldBoard newBoard of
                     Inl e \<Rightarrow> (c', emitted0, Some e)
                   | Inr equal \<Rightarrow>
                       (let hasBoardChanged = \<not> equal;
                            emitted1 = emitted0 @ (if hasBoardChanged then [boardChanged newBoard] else []);
                            emitted2 = emitted1 @ (if oldIsOurTurn \<noteq> isOurTurn c'
                                                   then [turnChanged (isOurTurn c')] else [])
                        in (c', emitted2, None)))))"

text \<open>
  Modelled from the spec: \<^verbatim>\<open>GameAreaController._updateFrom\<close>, the method of the base
  class, whose file is not part of the sources at hand. The spec says of it that the
  held snapshot is replaced wholesale, not merged. This instance of the parameter of
  \<open>updateFrom\<close> does that and nothing else; it serves as the concrete base class in
  the examples.
\<close>

definition replace_snapshot ::
  "GameArea \<Rightarrow> TicTacToeAreaController \<Rightarrow> TicTacToeAreaController \<times> unit list" where
  "replace_snapshot newModel c = (c\<lparr>c_model := newModel\<rparr>, [])"

section \<open>The leaderboard\<close>

record PlayerStats =
  name :: string
  wins :: nat
  losses :: nat
  ties :: nat

text \<open>
  \<^verbatim>\<open>Object.keys(scores)\<close> and \<^verbatim>\<open>scores[player]\<close>. Comparing a number with
  \<^verbatim>\<open>undefined\<close> by \<^verbatim>\<open>>\<close> or \<^verbatim>\<open><\<close> is false.
\<close>

definition Object_keys :: "(string \<times> int) list \<Rightarrow> string list" where
  "Object_keys scores = map fst scores"

definition js_gt :: "int option \<Rightarrow> int option \<Rightarrow> bool" where
  "js_gt a b = (case a of None \<Rightarrow> False | Some u \<Rightarrow> (case b of None \<Rightarrow> False | Some v \<Rightarrow> u > v))"

definition js_lt :: "int option \<Rightarrow> int option \<Rightarrow> bool" where
  "js_lt a b = (case a of None \<Rightarrow> False | Some u \<Rightarrow> (case b of None \<Rightarrow> False | Some v \<Rightarrow> u < v))"

text \<open>
  The \<^verbatim>\<open>Map\<close> from names to statistics keeps its keys in insertion order; \<^verbatim>\<open>set\<close>
  on a key that is present replaces the value in place.
\<close>

fun statsMap_set ::
  "(string \<times> PlayerStats) list \<Rightarrow> string \<Rightarrow> PlayerStats \<Rightarrow> (string \<times> PlayerStats) list" where
  "statsMap_set [] k v = [(k, v)]"
| "statsMap_set ((k', v') # m) k v =
     (if k' = k then (k, v) # m else (k', v') # statsMap_set m k v)"

text \<open>The innermost \<^verbatim>\<open>forEach\<close>: one player against every opponent of the result.\<close>

fun opponent_loop ::
  "(string \<times> int) list \<Rightarrow> string \<Rightarrow> int option \<Rightarrow> string list \<Rightarrow> PlayerStats \<Rightarrow> PlayerStats" where
  "opponent_loop scores player playerScore [] currentStats = currentStats"
| "opponent_loop scores player playerScore (opponent # rest) currentStats =
     opponent_loop scores player playerScore rest
       (if player \<noteq> opponent then
          (if js_gt playerScore (map_of scores opponent)
           then currentStats\<lparr>wins := wins currentStats + 1\<rparr>
           else if js_lt playerScore (map_of scores opponent)
           then currentStats\<lparr>losses := losses currentStats + 1\<rparr>
           else currentStats\<lparr>ties := ties currentStats + 1\<rparr>)
        else currentStats)"

text \<open>The \<^verbatim>\<open>forEach\<close> over the players of one result.\<close>

fun player_loop ::
  "(string \<times> int) list \<Rightarrow> string list \<Rightarrow> string list \<Rightarrow> (string \<times> PlayerStats) list
     \<Rightarrow> (string \<times> PlayerStats) list" where
  "player_loop scores players [] statsMap = statsMap"
| "player_loop scores players (player # rest) statsMap =
     (let currentStats =
            (case map_of statsMap player of
               Some s \<Rightarrow> s
             | None \<Rightarrow> \<lparr>name = player, wins = 0, losses = 0, ties = 0\<rparr>);
          playerScore = map_of scores player;
          currentStats' = opponent_loop scores player playerScore players currentStats
      in player_loop scores players rest (statsMap_set statsMap player currentStats'))"

text \<open>The \<^verbatim>\<open>forEach\<close> over the results.\<close>

fun result_loop :: "GameResult list \<Rightarrow> (string \<times> PlayerStats) list \<Rightarrow> (string \<times> PlayerStats) list" where
  "result_loop [] statsMap = statsMap"
| "result_loop (result # rest) statsMap =
     (let scores = r_scores result;
          players = Object_keys scores
      in result_loop rest (player_loop scores players players statsMap))"

text \<open>
  The rows of the table, \<^verbatim>\<open>sortedStats\<close>: the values of the map in insertion order,
  sorted by descending wins. \<^verbatim>\<open>Array.prototype.sort\<close> is stable, and so is
  \<open>sort_key\<close>.
\<close>

definition Leaderboard :: "GameResult list \<Rightarrow> PlayerStats list" where
  "Leaderboard results =
     (let statsMap = result_loop results [];
          sortedStats = sort_key (\<lambda>s. - int (wins s)) (map snd statsMap)
      in sortedStats)"

section \<open>The tally in the words of the specification\<close>

text \<open>
  What one result credits to player \<open>p\<close>: with \<open>u\<close> the score of \<open>p\<close> in the
  result, one win for every other player of the result with a strictly lower score, one
  loss for every other player with a strictly higher score (that player's win is this
  player's loss), and one tie for every other player with an equal score. A player who
  does not appear in the result is credited nothing.
\<close>

definition wins_in :: "(string \<times> int) list \<Rightarrow> string \<Rightarrow> nat" where
  "wins_in scores p =
     (case map_of scores p of
        None \<Rightarrow> 0
      | Some u \<Rightarrow> length (filter (\<lambda>(q, v). q \<noteq> p \<and> u > v) scores))"

definition losses_in :: "(string \<times> int) list \<Rightarrow> string \<Rightarrow> nat" where
  "losses_in scores p =
     (case map_of scores p of
        None \<Rightarrow> 0
      | Some u \<Rightarrow> length (filter (\<lambda>(q, v). q \<noteq> p \<and> v > u) scores))"

definition ties_in :: "(string \<times> int) list \<Rightarrow> string \<Rightarrow> nat" where
  "ties_in scores p =
     (case map_of scores p of
        None \<Rightarrow> 0
      | Some u \<Rightarrow> length (filter (\<lambda>(q, v). q \<noteq> p \<and> v = u) scores))"

text \<open>The credits accumulated over all results, and the players encountered.\<close>

definition total_wins :: "GameResult list \<Rightarrow> string \<Rightarrow> nat" where
  "total_wins results p = sum_list (map (\<lambda>result. wins_in (r_scores result) p) results)"

definition total_losses :: "GameResult list \<Rightarrow> string \<Rightarrow> nat" where
  "total_losses results p = sum_list (map (\<lambda>result. losses_in (r_scores result) p) results)"

definition total_ties :: "GameResult list \<Rightarrow> string \<Rightarrow> nat" where
  "total_ties results p = sum_list (map (\<lambda>result. ties_in (r_scores result) p) results)"

definition players_of :: "GameResult list \<Rightarrow> string set" where
  "players_of results = (\<Union>result\<in>set results. set (Object_keys (r_scores result)))"

text \<open>
  For the proofs: what one pass of the middle loop does to the entry of a player, and
  the invariant of the map after the results seen so far.
\<close>

definition step_stats :: "(string \<times> int) list \<Rightarrow> string \<Rightarrow> PlayerStats option \<Rightarrow> PlayerStats" where
  "step_stats scores p old =
     opponent_loop scores p (map_of scores p) (Object_keys scores)
       (case old of Some s \<Rightarrow> s | None \<Rightarrow> \<lparr>name = p, wins = 0, losses = 0, ties = 0\<rparr>)"

definition tallied :: "GameResult list \<Rightarrow> (string \<times> PlayerStats) list \<Rightarrow> bool" where
  "tallied seen m \<longleftrightarrow>
     distinct (map fst m) \<and> fst ` set m = players_of seen
     \<and> (\<forall>k s. map_of m k = Some s \<longrightarrow>
           name s = k \<and> wins s = total_wins seen k \<and> losses s = total_losses seen k
           \<and> ties s = total_ties seen k)"

section \<open>The last move on a cell\<close>

text \<open>The last move of a history, in its order, that targets the cell at row \<open>r\<close>, column \<open>k\<close>.\<close>

definition last_move_at :: "TicTacToeMove list \<Rightarrow> nat \<Rightarrow> nat \<Rightarrow> TicTacToeMove option" where
  "last_move_at ms r k = find (\<lambda>m. m_row m = r \<and> m_col m = k) (rev ms)"

section \<open>Example states\<close>

text \<open>
  A town with three player objects; the viewer is object 0, with the id \<open>''us''\<close>.
\<close>

definition example_town :: TownController where
  "example_town =
     \<lparr>ourPlayer = 0,
      player_id = (\<lambda>p. if p = 0 then ''us'' else if p = 1 then ''them'' else ''guest'')\<rparr>"

definition example_game ::
  "GameStatus \<Rightarrow> PlayerID option \<Rightarrow> PlayerID option \<Rightarrow> TicTacToeMove list \<Rightarrow> GameInstance" where
  "example_game st xid oid ms =
     \<lparr>g_id = ''g1'', g_players = [''us'', ''them''],
      g_state = \<lparr>s_status = st, s_x = xid, s_o = oid, s_moves = ms, s_winner = None\<rparr>\<rparr>"

definition example_model :: "GameInstance option \<Rightarrow> GameArea" where
  "example_model g =
     \<lparr>a_id = ''area'', a_occupants = [''us'', ''them''], a_history = [], a_game = g\<rparr>"

definition example_controller ::
  "GameInstance option \<Rightarrow> PlayerController list \<Rightarrow> GameInstanceID option \<Rightarrow> TicTacToeAreaController" where
  "example_controller g ps inst =
     \<lparr>c_id = ''area'', c_model = example_model g,
      c_players = ps, c_instanceID = inst, c_townController = example_town\<rparr>"

lemmas example_defs = example_town_def example_game_def example_model_def example_controller_def

section \<open>Requesting a move: the checks before the transport\<close>

text \<open>
  C1. \<^verbatim>\<open>makeMove\<close> is to fail with \<^verbatim>\<open>NO_GAME_IN_PROGRESS_ERROR\<close>, without calling the
  transport, whenever the status is not \<^verbatim>\<open>IN_PROGRESS\<close> or no session identifier is
  held. The code does not do so for the status. In the first state below the game is
  over, a session identifier is held and the viewer holds the X seat; in the second the
  viewer has joined and waits for an opponent. In both, \<^verbatim>\<open>makeMove(0, 0)\<close> hands the
  move command to the transport and ends as the transport does.
\<close>

theorem makeMove_game_over_sends:
  "status (example_controller (Some (example_game OVER (Some ''us'') (Some ''them'') [])) [0, 1] (Some ''g1'')) = OVER
   \<and> makeMove send 0 0
        (example_controller (Some (example_game OVER (Some ''us'') (Some ''them'') [])) [0, 1] (Some ''g1''))
     = ([(''area'', \<lparr>cmd_gameID = ''g1'', cmd_move = \<lparr>m_gamePiece = PieceX, m_row = 0, m_col = 0\<rparr>\<rparr>)],
        send ''area'' \<lparr>cmd_gameID = ''g1'', cmd_move = \<lparr>m_gamePiece = PieceX, m_row = 0, m_col = 0\<rparr>\<rparr>)
   \<and> status (example_controller (Some (example_game WAITING_TO_START (Some ''us'') None [])) [0] (Some ''g1''))
       = WAITING_TO_START
   \<and> makeMove send 0 0
        (example_controller (Some (example_game WAITING_TO_START (Some ''us'') None [])) [0] (Some ''g1''))
     = ([(''area'', \<lparr>cmd_gameID = ''g1'', cmd_move = \<lparr>m_gamePiece = PieceX, m_row = 0, m_col = 0\<rparr>\<rparr>)],
        send ''area'' \<lparr>cmd_gameID = ''g1'', cmd_move = \<lparr>m_gamePiece = PieceX, m_row = 0, m_col = 0\<rparr>\<rparr>)"
  by (simp add: example_defs makeMove_def truthy_function_def truthy_string_def gamePiece_def
      isPlayer_def get_x_def model_x_def gameState_def status_def Let_def)

text \<open>
  The other half of that requirement holds: without a session identifier (none, or the
  empty string) the call fails with \<^verbatim>\<open>NO_GAME_IN_PROGRESS_ERROR\<close> before the
  transport is reached.
\<close>

lemma makeMove_no_session:
  assumes "\<not> truthy_string (c_instanceID c)"
  shows "makeMove send row col c = ([], Inl (Error NO_GAME_IN_PROGRESS_ERROR))"
  using assms by (simp add: makeMove_def)

text \<open>
  C8. When the game is in progress and a session identifier is held, and the viewer is
  not a player of the game (\<^verbatim>\<open>isPlayer\<close> is false), \<^verbatim>\<open>makeMove\<close> fails with
  \<^verbatim>\<open>PLAYER_NOT_IN_GAME_ERROR\<close>, thrown by the getter \<^verbatim>\<open>gamePiece\<close>, and no command
  reaches the transport.
\<close>

theorem makeMove_not_player:
  assumes "isActive c" and "truthy_string (c_instanceID c)" and "\<not> isPlayer c"
  shows "makeMove send row col c = ([], Inl (Error PLAYER_NOT_IN_GAME_ERROR))"
  using assms by (simp add: makeMove_def truthy_function_def gamePiece_def)

theorem makeMove_not_player_witness:
  "isActive (example_controller (Some (example_game IN_PROGRESS (Some ''them'') (Some ''guest'') [])) [1, 2] (Some ''g1''))
   \<and> truthy_string (c_instanceID
        (example_controller (Some (example_game IN_PROGRESS (Some ''them'') (Some ''guest'') [])) [1, 2] (Some ''g1'')))
   \<and> \<not> isPlayer (example_controller (Some (example_game IN_PROGRESS (Some ''them'') (Some ''guest'') [])) [1, 2] (Some ''g1''))
   \<and> makeMove (\<lambda>i m. Inr ()) 1 2
        (example_controller (Some (example_game IN_PROGRESS (Some ''them'') (Some ''guest'') [])) [1, 2] (Some ''g1''))
       = ([], Inl (Error ''Player is not in game''))"
proof -
  let ?c = "example_controller (Some (example_game IN_PROGRESS (Some ''them'') (Some ''guest'') [])) [1, 2] (Some ''g1'')"
  have a: "isActive ?c"
    by (simp add: example_defs isActive_def status_def gameState_def)
  have b: "truthy_string (c_instanceID ?c)"
    by (simp add: example_defs truthy_string_def)
  have c: "\<not> isPlayer ?c"
    by (simp add: example_defs isPlayer_def)
  from makeMove_not_player [OF a b c, of "\<lambda>i m. Inr ()" 1 2] a b c
  show ?thesis by (simp add: PLAYER_NOT_IN_GAME_ERROR_def)
qed

section \<open>The accessors without a game\<close>

text \<open>
  C9. When the model holds no game object, the accessors return defaults and do not
  fail: the status is \<^verbatim>\<open>WAITING_TO_START\<close>, the board is the empty 3 by 3 grid, the
  move count is 0 and it is not our turn.
\<close>

theorem no_game_defaults:
  assumes "a_game (c_model c) = None"
  shows "status c = WAITING_TO_START
       \<and> board c = Inr [[None, None, None], [None, None, None], [None, None, None]]
       \<and> moveCount c = 0
       \<and> isOurTurn c = False"
  using assms
  by (simp add: status_def board_def moveCount_def model_moves_def isOurTurn_def gameState_def emptyBoard_def)

theorem no_game_defaults_witness:
  "a_game (c_model (example_controller None [] None)) = None
   \<and> status (example_controller None [] None) = WAITING_TO_START
   \<and> board (example_controller None [] None) = Inr [[None, None, None], [None, None, None], [None, None, None]]
   \<and> moveCount (example_controller None [] None) = 0
   \<and> isOurTurn (example_controller None [] None) = False"
proof -
  have a: "a_game (c_model (example_controller None [] None)) = None"
    by (simp add: example_defs)
  from no_game_defaults [OF a] a show ?thesis by simp
qed

section \<open>The piece of the viewer\<close>

text \<open>
  C10. When the viewer is a player of the game (\<^verbatim>\<open>isPlayer\<close> is true), the getter
  \<^verbatim>\<open>gamePiece\<close> does not throw; it returns X exactly when the viewer is the player
  object that the getter \<^verbatim>\<open>x\<close> returns, and O otherwise, also when the viewer is
  neither the object of \<^verbatim>\<open>x\<close> nor that of \<^verbatim>\<open>o\<close>.
\<close>

theorem gamePiece_of_player:
  assumes "isPlayer c"
  shows "gamePiece c = Inr (if get_x c = Some (ourPlayer (c_townController c)) then PieceX else PieceO)
       \<and> (get_x c \<noteq> Some (ourPlayer (c_townController c)) \<and> get_o c \<noteq> Some (ourPlayer (c_townController c))
            \<longrightarrow> gamePiece c = Inr PieceO)"
  using assms by (auto simp add: gamePiece_def)

theorem gamePiece_of_player_witness:
  "isPlayer (example_controller (Some (example_game IN_PROGRESS (Some ''them'') (Some ''guest'') [])) [0, 1, 2] None)
   \<and> get_x (example_controller (Some (example_game IN_PROGRESS (Some ''them'') (Some ''guest'') [])) [0, 1, 2] None) = Some 1
   \<and> get_o (example_controller (Some (example_game IN_PROGRESS (Some ''them'') (Some ''guest'') [])) [0, 1, 2] None) = Some 2
   \<and> gamePiece (example_controller (Some (example_game IN_PROGRESS (Some ''them'') (Some ''guest'') [])) [0, 1, 2] None)
       = Inr PieceO"
proof -
  let ?c = "example_controller (Some (example_game IN_PROGRESS (Some ''them'') (Some ''guest'') [])) [0, 1, 2] None"
  have a: "isPlayer ?c"
    by (simp add: example_defs isPlayer_def)
  have b: "get_x ?c = Some 1"
    by (simp add: example_defs get_x_def model_x_def gameState_def)
  have c: "get_o ?c = Some 2"
    by (simp add: example_defs get_o_def model_o_def gameState_def)
  from gamePiece_of_player [OF a] a b c show ?thesis
    by (simp add: example_defs)
qed

section \<open>Whose turn it is\<close>

lemma whoseTurn_loop_even:
  assumes "even (moveCount c)" and "truthy_string (s_x gs)"
  shows "whoseTurn_loop c gs ps = find (\<lambda>player. s_x gs = Some (player_id (c_townController c) player)) ps"
  using assms by (induction ps) auto

lemma whoseTurn_loop_odd:
  assumes "odd (moveCount c)" and "truthy_string (s_o gs)"
  shows "whoseTurn_loop c gs ps = find (\<lambda>player. s_o gs = Some (player_id (c_townController c) player)) ps"
  using assms by (induction ps) (auto simp add: odd_iff_mod_2_eq_one)

lemma whoseTurn_loop_even_falsy:
  assumes "even (moveCount c)" and "\<not> truthy_string (s_x gs)"
  shows "whoseTurn_loop c gs ps = None"
  using assms by (induction ps) (auto simp add: odd_iff_mod_2_eq_one)

lemma whoseTurn_loop_odd_falsy:
  assumes "odd (moveCount c)" and "\<not> truthy_string (s_o gs)"
  shows "whoseTurn_loop c gs ps = None"
  using assms by (induction ps) (auto simp add: odd_iff_mod_2_eq_one)

lemma find_never:
  "find (\<lambda>player. False) ps = None"
  by (induction ps) auto

text \<open>
  The loop tests the recorded seat id for truthiness before it compares: with a seat id
  that is \<^verbatim>\<open>undefined\<close> or empty it finds no player.
\<close>

lemma whoseTurn_cases:
  "(status c = IN_PROGRESS \<and> even (moveCount c) \<and> model_x c \<noteq> Some [] \<longrightarrow> whoseTurn c = get_x c)
   \<and> (status c = IN_PROGRESS \<and> odd (moveCount c) \<and> model_o c \<noteq> Some [] \<longrightarrow> whoseTurn c = get_o c)
   \<and> (status c = IN_PROGRESS \<and> even (moveCount c) \<and> model_x c = Some [] \<longrightarrow> whoseTurn c = None)
   \<and> (status c = IN_PROGRESS \<and> odd (moveCount c) \<and> model_o c = Some [] \<longrightarrow> whoseTurn c = None)
   \<and> (status c \<noteq> IN_PROGRESS \<longrightarrow> whoseTurn c = None)"
proof (cases "gameState c")
  case None
  then show ?thesis
    by (simp add: status_def whoseTurn_def)
next
  case (Some gs)
  have x_even: "whoseTurn_loop c gs (c_players c) = get_x c"
    if "even (moveCount c)" and "s_x gs \<noteq> Some []"
  proof (cases "s_x gs")
    case None
    then have "\<not> truthy_string (s_x gs)" by (simp add: truthy_string_def)
    with that None Some show ?thesis
      by (simp add: whoseTurn_loop_even_falsy get_x_def model_x_def find_never)
  next
    case (Some xid)
    with that have "truthy_string (s_x gs)" by (simp add: truthy_string_def)
    with that \<open>gameState c = Some gs\<close> show ?thesis
      by (simp add: whoseTurn_loop_even get_x_def model_x_def)
  qed
  have o_odd: "whoseTurn_loop c gs (c_players c) = get_o c"
    if "odd (moveCount c)" and "s_o gs \<noteq> Some []"
  proof (cases "s_o gs")
    case None
    then have "\<not> truthy_string (s_o gs)" by (simp add: truthy_string_def)
    with that None Some show ?thesis
      by (simp add: whoseTurn_loop_odd_falsy get_o_def model_o_def find_never)
  next
    case (Some oid)
    with that have "truthy_string (s_o gs)" by (simp add: truthy_string_def)
    with that \<open>gameState c = Some gs\<close> show ?thesis
      by (simp add: whoseTurn_loop_odd get_o_def model_o_def)
  qed
  have x_empty: "whoseTurn_loop c gs (c_players c) = None"
    if "even (moveCount c)" and "s_x gs = Some []"
    using that by (simp add: whoseTurn_loop_even_falsy truthy_string_def)
  have o_empty: "whoseTurn_loop c gs (c_players c) = None"
    if "odd (moveCount c)" and "s_o gs = Some []"
    using that by (simp add: whoseTurn_loop_odd_falsy truthy_string_def)
  from Some x_even o_odd x_empty o_empty show ?thesis
    by (simp add: status_def whoseTurn_def model_x_def model_o_def)
qed

lemma find_no_blank_id:
  assumes "\<forall>p\<in>set ps. f p \<noteq> []"
  shows "find (\<lambda>p. [] = f p) ps = None"
  using assms by (induction ps) auto

text \<open>
  C6. Player ids are generated tokens and never the empty string. Then: when the
  snapshot holds a game whose status is \<^verbatim>\<open>IN_PROGRESS\<close>, \<^verbatim>\<open>whoseTurn\<close> is the player
  holding the X seat, the one the getter \<^verbatim>\<open>x\<close> returns, if the number of moves of the
  snapshot is even, and the player holding the O seat, the one the getter \<^verbatim>\<open>o\<close>
  returns, if it is odd; the holder of a seat is the first player object whose id is the
  id the snapshot records for the seat, and \<^verbatim>\<open>undefined\<close> if there is none. When the
  status of the game is not \<^verbatim>\<open>IN_PROGRESS\<close>, or the snapshot holds no game,
  \<^verbatim>\<open>whoseTurn\<close> is \<^verbatim>\<open>undefined\<close>.
\<close>

theorem whoseTurn_by_parity:
  assumes "\<forall>p\<in>set (c_players c). player_id (c_townController c) p \<noteq> []"
  shows "case a_game (c_model c) of
           None \<Rightarrow> whoseTurn c = None
         | Some inst \<Rightarrow>
             (if s_status (g_state inst) = IN_PROGRESS then
                (if even (length (s_moves (g_state inst)))
                 then whoseTurn c = get_x c
                    \<and> get_x c = find (\<lambda>p. s_x (g_state inst) = Some (player_id (c_townController c) p))
                                     (c_players c)
                 else whoseTurn c = get_o c
                    \<and> get_o c = find (\<lambda>p. s_o (g_state inst) = Some (player_id (c_townController c) p))
                                     (c_players c))
              else whoseTurn c = None)"
proof (cases "a_game (c_model c)")
  case None
  then show ?thesis
    by (simp add: whoseTurn_def gameState_def)
next
  case (Some inst)
  let ?gs = "g_state inst"
  from Some have gs: "gameState c = Some ?gs"
    by (simp add: gameState_def)
  then have st: "status c = s_status ?gs" and mc: "moveCount c = length (s_moves ?gs)"
    and mx: "model_x c = s_x ?gs" and mo: "model_o c = s_o ?gs"
    by (simp_all add: status_def moveCount_def model_moves_def model_x_def model_o_def)
  have gx: "get_x c = find (\<lambda>p. s_x ?gs = Some (player_id (c_townController c) p)) (c_players c)"
    by (simp add: get_x_def mx)
  have go: "get_o c = find (\<lambda>p. s_o ?gs = Some (player_id (c_townController c) p)) (c_players c)"
    by (simp add: get_o_def mo)
  have x_turn: "whoseTurn c = get_x c"
    if "s_status ?gs = IN_PROGRESS" and "even (length (s_moves ?gs))"
  proof (cases "s_x ?gs = Some []")
    case True
    with that whoseTurn_cases [of c] have "whoseTurn c = None"
      by (simp add: st mc mx)
    moreover from True assms have "get_x c = None"
      by (simp add: gx find_no_blank_id)
    ultimately show ?thesis by simp
  next
    case False
    with that whoseTurn_cases [of c] show ?thesis
      by (simp add: st mc mx)
  qed
  have o_turn: "whoseTurn c = get_o c"
    if "s_status ?gs = IN_PROGRESS" and "odd (length (s_moves ?gs))"
  proof (cases "s_o ?gs = Some []")
    case True
    with that whoseTurn_cases [of c] have "whoseTurn c = None"
      by (simp add: st mc mo)
    moreover from True assms have "get_o c = None"
      by (simp add: go find_no_blank_id)
    ultimately show ?thesis by simp
  next
    case False
    with that whoseTurn_cases [of c] show ?thesis
      by (simp add: st mc mo)
  qed
  have idle: "whoseTurn c = None" if "s_status ?gs \<noteq> IN_PROGRESS"
    using that whoseTurn_cases [of c] by (simp add: st)
  from Some x_turn o_turn idle gx go show ?thesis
    by simp
qed

theorem whoseTurn_by_parity_witness:
  "list_all (\<lambda>p. player_id example_town p \<noteq> []) [0, 1]
   \<and> a_game (c_model (example_controller (Some (example_game IN_PROGRESS (Some ''us'') (Some ''them'')
       [\<lparr>m_gamePiece = PieceX, m_row = 0, m_col = 0\<rparr>])) [0, 1] None))
      = Some (example_game IN_PROGRESS (Some ''us'') (Some ''them'') [\<lparr>m_gamePiece = PieceX, m_row = 0, m_col = 0\<rparr>])
   \<and> get_o (example_controller (Some (example_game IN_PROGRESS (Some ''us'') (Some ''them'')
       [\<lparr>m_gamePiece = PieceX, m_row = 0, m_col = 0\<rparr>])) [0, 1] None) = Some 1
   \<and> whoseTurn (example_controller (Some (example_game IN_PROGRESS (Some ''us'') (Some ''them'')
       [\<lparr>m_gamePiece = PieceX, m_row = 0, m_col = 0\<rparr>])) [0, 1] None) = Some 1
   \<and> whoseTurn (example_controller (Some (example_game IN_PROGRESS (Some ''us'') (Some ''them'') [])) [0, 1] None)
      = Some 0
   \<and> whoseTurn (example_controller (Some (example_game OVER (Some ''us'') (Some ''them'') [])) [0, 1] None)
      = None"
proof -
  let ?ms = "[\<lparr>m_gamePiece = PieceX, m_row = 0, m_col = 0\<rparr>]"
  let ?c1 = "example_controller (Some (example_game IN_PROGRESS (Some ''us'') (Some ''them'') ?ms)) [0, 1] None"
  let ?c0 = "example_controller (Some (example_game IN_PROGRESS (Some ''us'') (Some ''them'') [])) [0, 1] None"
  let ?c2 = "example_controller (Some (example_game OVER (Some ''us'') (Some ''them'') [])) [0, 1] None"
  have ids: "\<forall>p\<in>set (c_players c). player_id (c_townController c) p \<noteq> []"
    if "c_players c = [0, 1]" and "c_townController c = example_town" for c
    using that by (simp add: example_town_def)
  have g1: "a_game (c_model ?c1) = Some (example_game IN_PROGRESS (Some ''us'') (Some ''them'') ?ms)"
    by (simp add: example_defs)
  have o1: "get_o ?c1 = Some 1"
    by (simp add: example_defs get_o_def model_o_def gameState_def)
  have x0: "get_x ?c0 = Some 0"
    by (simp add: example_defs get_x_def model_x_def gameState_def)
  have "whoseTurn ?c1 = Some 1"
    using whoseTurn_by_parity [OF ids, of ?c1] o1 by (simp add: example_defs)
  moreover have "whoseTurn ?c0 = Some 0"
    using whoseTurn_by_parity [OF ids, of ?c0] x0 by (simp add: example_defs)
  moreover have "whoseTurn ?c2 = None"
    using whoseTurn_by_parity [OF ids, of ?c2] by (simp add: example_defs)
  ultimately show ?thesis using g1 o1
    by (simp add: example_town_def)
qed

section \<open>The derived board\<close>

lemma all_less_3: "(\<forall>i<3. P i) \<longleftrightarrow> P (0::nat) \<and> P 1 \<and> P 2"
  by (auto simp add: less_Suc_eq numeral_3_eq_3 numeral_2_eq_2)

lemma find_snoc:
  "find P (xs @ [y]) = (case find P xs of None \<Rightarrow> (if P y then Some y else None) | Some x \<Rightarrow> Some x)"
  by (induction xs) auto

lemma last_move_at_Cons:
  "last_move_at (m # ms) r k =
     (case last_move_at ms r k of
        None \<Rightarrow> if m_row m = r \<and> m_col m = k then Some m else None
      | Some m' \<Rightarrow> Some m')"
  by (simp add: last_move_at_def find_snoc)

lemma board_loop_cells:
  assumes "\<forall>m\<in>set ms. m_row m < 3 \<and> m_col m < 3"
    and "length b = 3" and "\<forall>i<3. length (b ! i) = 3"
  shows "\<exists>g. board_loop ms b = Inr g \<and> length g = 3 \<and> (\<forall>i<3. length (g ! i) = 3)
           \<and> (\<forall>r<3. \<forall>k<3. g ! r ! k =
                 (case last_move_at ms r k of None \<Rightarrow> b ! r ! k | Some m \<Rightarrow> Some (m_gamePiece m)))"
  using assms
proof (induction ms arbitrary: b)
  case Nil
  then show ?case by (simp add: last_move_at_def)
next
  case (Cons m ms)
  let ?b = "b[m_row m := array_set (b ! m_row m) (m_col m) (Some (m_gamePiece m))]"
  from Cons.prems have row: "m_row m < 3" and col: "m_col m < 3" by simp_all
  from Cons.prems row col have set_in: "array_set (b ! m_row m) (m_col m) (Some (m_gamePiece m))
      = (b ! m_row m)[m_col m := Some (m_gamePiece m)]"
    by (simp add: array_set_def)
  have len: "length ?b = 3" using Cons.prems by simp
  have rows: "\<forall>i<3. length (?b ! i) = 3"
    using Cons.prems by (simp add: set_in nth_list_update)
  have cell: "?b ! r ! k = (if r = m_row m \<and> k = m_col m then Some (m_gamePiece m) else b ! r ! k)"
    if "r < 3" and "k < 3" for r k
    using that Cons.prems by (simp add: set_in nth_list_update)
  from Cons.prems have "\<forall>m\<in>set ms. m_row m < 3 \<and> m_col m < 3" by simp
  from Cons.IH [OF this len rows] obtain g where g: "board_loop ms ?b = Inr g" "length g = 3"
    "\<forall>i<3. length (g ! i) = 3"
    "\<forall>r<3. \<forall>k<3. g ! r ! k = (case last_move_at ms r k of None \<Rightarrow> ?b ! r ! k | Some m \<Rightarrow> Some (m_gamePiece m))"
    by blast
  have "g ! r ! k = (case last_move_at (m # ms) r k of None \<Rightarrow> b ! r ! k | Some m \<Rightarrow> Some (m_gamePiece m))"
    if "r < 3" and "k < 3" for r k
    using that g(4) cell [OF that] by (auto simp add: last_move_at_Cons split: option.splits)
  moreover from row Cons.prems g(1) have "board_loop (m # ms) b = Inr g" by simp
  ultimately show ?case using g(2,3) by blast
qed

lemma emptyBoard_cells:
  "length emptyBoard = 3" "\<forall>i<3. length (emptyBoard ! i) = 3" "\<forall>r<3. \<forall>k<3. emptyBoard ! r ! k = None"
  by (simp_all add: emptyBoard_def all_less_3)

lemma model_moves_of_game:
  assumes "a_game (c_model c) = Some inst"
  shows "model_moves c = s_moves (g_state inst)"
  using assms by (simp add: model_moves_def gameState_def)

lemma board_cells:
  assumes "\<forall>m\<in>set (model_moves c). m_row m < 3 \<and> m_col m < 3"
  shows "\<exists>g. board c = Inr g \<and> length g = 3 \<and> (\<forall>r<3. length (g ! r) = 3)
           \<and> (\<forall>r<3. \<forall>k<3. g ! r ! k = map_option m_gamePiece (last_move_at (model_moves c) r k))"
proof -
  from board_loop_cells [OF assms emptyBoard_cells(1,2)]
  obtain g where g: "board_loop (model_moves c) emptyBoard = Inr g" "length g = 3"
    "\<forall>i<3. length (g ! i) = 3"
    "\<forall>r<3. \<forall>k<3. g ! r ! k =
       (case last_move_at (model_moves c) r k of None \<Rightarrow> emptyBoard ! r ! k | Some m \<Rightarrow> Some (m_gamePiece m))"
    by blast
  have "g ! r ! k = map_option m_gamePiece (last_move_at (model_moves c) r k)" if "r < 3" and "k < 3" for r k
    using that g(4) emptyBoard_cells(3) by (auto split: option.splits)
  with g(1,2,3) show ?thesis
    by (simp add: board_def)
qed

text \<open>
  C5. When every move of the history that the snapshot holds has its row and column among
  0, 1, 2, the getter \<^verbatim>\<open>board\<close> does not fail, also when several moves target one
  cell; the grid is 3 by 3 and each cell holds the piece of the last move of that history
  that targets it, and is empty when no move does.
\<close>

theorem board_last_move_wins:
  assumes "a_game (c_model c) = Some inst"
    and "\<forall>m\<in>set (s_moves (g_state inst)). m_row m < 3 \<and> m_col m < 3"
  shows "\<exists>g. board c = Inr g \<and> length g = 3 \<and> (\<forall>r<3. length (g ! r) = 3)
           \<and> (\<forall>r<3. \<forall>k<3. g ! r ! k
                 = map_option m_gamePiece (last_move_at (s_moves (g_state inst)) r k))"
proof -
  from assms(1) have "model_moves c = s_moves (g_state inst)"
    by (rule model_moves_of_game)
  with board_cells [of c] assms(2) show ?thesis
    by simp
qed

theorem board_last_move_wins_witness:
  "a_game (c_model (example_controller (Some (example_game IN_PROGRESS (Some ''us'') (Some ''them'')
        [\<lparr>m_gamePiece = PieceX, m_row = 1, m_col = 1\<rparr>,
         \<lparr>m_gamePiece = PieceO, m_row = 1, m_col = 1\<rparr>,
         \<lparr>m_gamePiece = PieceX, m_row = 0, m_col = 2\<rparr>])) [0, 1] None))
     = Some (example_game IN_PROGRESS (Some ''us'') (Some ''them'')
        [\<lparr>m_gamePiece = PieceX, m_row = 1, m_col = 1\<rparr>,
         \<lparr>m_gamePiece = PieceO, m_row = 1, m_col = 1\<rparr>,
         \<lparr>m_gamePiece = PieceX, m_row = 0, m_col = 2\<rparr>])
   \<and> list_all (\<lambda>m. m_row m < 3 \<and> m_col m < 3)
        [\<lparr>m_gamePiece = PieceX, m_row = 1, m_col = 1\<rparr>,
         \<lparr>m_gamePiece = PieceO, m_row = 1, m_col = 1\<rparr>,
         \<lparr>m_gamePiece = PieceX, m_row = 0, m_col = 2\<rparr>]
   \<and> (\<exists>g. board (example_controller (Some (example_game IN_PROGRESS (Some ''us'') (Some ''them'')
        [\<lparr>m_gamePiece = PieceX, m_row = 1, m_col = 1\<rparr>,
         \<lparr>m_gamePiece = PieceO, m_row = 1, m_col = 1\<rparr>,
         \<lparr>m_gamePiece = PieceX, m_row = 0, m_col = 2\<rparr>])) [0, 1] None) = Inr g
        \<and> g ! 1 ! 1 = Some PieceO \<and> g ! 0 ! 2 = Some PieceX \<and> g ! 0 ! 0 = None)"
proof -
  let ?ms = "[\<lparr>m_gamePiece = PieceX, m_row = 1, m_col = 1\<rparr>,
         \<lparr>m_gamePiece = PieceO, m_row = 1, m_col = 1\<rparr>,
         \<lparr>m_gamePiece = PieceX, m_row = 0, m_col = 2\<rparr>]"
  let ?inst = "example_game IN_PROGRESS (Some ''us'') (Some ''them'') ?ms"
  let ?c = "example_controller (Some ?inst) [0, 1] None"
  have gm: "a_game (c_model ?c) = Some ?inst"
    by (simp add: example_defs)
  have ms: "s_moves (g_state ?inst) = ?ms"
    by (simp add: example_game_def)
  have a: "\<forall>m\<in>set (s_moves (g_state ?inst)). m_row m < 3 \<and> m_col m < 3"
    unfolding ms by simp
  from board_last_move_wins [OF gm a] obtain g where g: "board ?c = Inr g"
    "\<forall>r<3. \<forall>k<3. g ! r ! k = map_option m_gamePiece (last_move_at (s_moves (g_state ?inst)) r k)"
    by blast
  have "last_move_at ?ms 1 1 = Some \<lparr>m_gamePiece = PieceO, m_row = 1, m_col = 1\<rparr>"
    and "last_move_at ?ms 0 2 = Some \<lparr>m_gamePiece = PieceX, m_row = 0, m_col = 2\<rparr>"
    and "last_move_at ?ms 0 0 = None"
    by (simp_all add: last_move_at_def)
  with g(2) have "g ! 1 ! 1 = Some PieceO \<and> g ! 0 ! 2 = Some PieceX \<and> g ! 0 ! 0 = None"
    unfolding ms by simp
  with g(1) gm show ?thesis
    by auto
qed

lemma last_move_at_None:
  "last_move_at ms r k = None \<longleftrightarrow> (r, k) \<notin> (\<lambda>m. (m_row m, m_col m)) ` set ms"
  by (auto simp add: last_move_at_def find_None_iff)

lemma find_SomeD:
  "find P xs = Some x \<Longrightarrow> x \<in> set xs \<and> P x"
  by (induction xs) (auto split: if_splits)

lemma last_move_at_distinct:
  assumes "distinct (map (\<lambda>m. (m_row m, m_col m)) ms)" and "m \<in> set ms"
  shows "last_move_at ms (m_row m) (m_col m) = Some m"
proof -
  from assms(2) have "last_move_at ms (m_row m) (m_col m) \<noteq> None"
    by (simp add: last_move_at_None)
  then obtain m' where m': "last_move_at ms (m_row m) (m_col m) = Some m'"
    by blast
  then have "m' \<in> set ms" and "(m_row m', m_col m') = (m_row m, m_col m)"
    by (auto simp add: last_move_at_def dest: find_SomeD)
  with assms have "m' = m"
    by (metis (mono_tags, lifting) distinct_map inj_onD)
  with m' show ?thesis by simp
qed

text \<open>The same over the list of moves that the getter reads.\<close>

lemma board_distinct_cells:
  assumes "\<forall>m\<in>set (model_moves c). m_row m < 3 \<and> m_col m < 3"
    and "distinct (map (\<lambda>m. (m_row m, m_col m)) (model_moves c))"
  shows "\<exists>g. board c = Inr g \<and> length g = 3 \<and> (\<forall>r<3. length (g ! r) = 3)
           \<and> (\<forall>m\<in>set (model_moves c). g ! m_row m ! m_col m = Some (m_gamePiece m))
           \<and> {(r, k). r < 3 \<and> k < 3 \<and> g ! r ! k \<noteq> None}
               = (\<lambda>m. (m_row m, m_col m)) ` set (model_moves c)
           \<and> card {(r, k). r < 3 \<and> k < 3 \<and> g ! r ! k \<noteq> None} = length (model_moves c)
           \<and> card {(r, k). r < 3 \<and> k < 3 \<and> g ! r ! k = None} = 9 - length (model_moves c)"
proof -
  let ?ms = "model_moves c"
  let ?cells = "(\<lambda>m. (m_row m, m_col m)) ` set ?ms"
  from board_cells [OF assms(1)] obtain g where g: "board c = Inr g" "length g = 3"
    "\<forall>r<3. length (g ! r) = 3"
    "\<forall>r<3. \<forall>k<3. g ! r ! k = map_option m_gamePiece (last_move_at ?ms r k)"
    by blast
  let ?filled = "{(r, k). r < 3 \<and> k < 3 \<and> g ! r ! k \<noteq> None}"
  let ?empty = "{(r, k). r < 3 \<and> k < 3 \<and> g ! r ! k = None}"
  have placed: "g ! m_row m ! m_col m = Some (m_gamePiece m)" if "m \<in> set ?ms" for m
    using that assms g(4) by (simp add: last_move_at_distinct)
  have filled: "?filled = ?cells"
  proof -
    have inside: "r < 3 \<and> k < 3" if "(r, k) \<in> ?cells" for r k
      using that assms(1) by auto
    have "g ! r ! k \<noteq> None \<longleftrightarrow> (r, k) \<in> ?cells" if "r < 3" and "k < 3" for r k
      using that g(4) last_move_at_None [of ?ms r k] by simp
    with inside have "p \<in> ?filled \<longleftrightarrow> p \<in> ?cells" for p
      by (cases p) blast
    then show ?thesis by blast
  qed
  have card_filled: "card ?filled = length ?ms"
  proof -
    have "card ?cells = card (set (map (\<lambda>m. (m_row m, m_col m)) ?ms))" by simp
    also have "\<dots> = length ?ms" using assms(2) by (simp add: distinct_card del: set_map)
    finally show ?thesis using filled by simp
  qed
  have card_empty: "card ?empty = 9 - length ?ms"
  proof -
    have "?empty = ({..<3} \<times> {..<3}) - ?filled" by auto
    moreover have "?filled \<subseteq> {..<3} \<times> {..<3}" by auto
    moreover have "card (({..<3::nat}) \<times> ({..<3::nat})) = 9" by (simp add: card_cartesian_product)
    moreover have "finite ({..<3::nat} \<times> {..<3::nat})" by simp
    ultimately have "card ?empty = 9 - card ?filled"
      by (metis (no_types, lifting) card_Diff_subset finite_subset)
    with card_filled show ?thesis by simp
  qed
  from g(1,2,3) placed filled card_filled card_empty show ?thesis by blast
qed

text \<open>
  C4. When the moves of the history that the snapshot holds have rows and columns among
  0, 1, 2 and target pairwise distinct cells, the board holds each move's piece at its
  cell, the filled cells are exactly the cells of the moves, their number is the length
  \<open>n\<close> of the history, which is at most 9, and the other \<open>9 - n\<close> cells are empty.
\<close>

theorem board_of_distinct_moves:
  assumes "a_game (c_model c) = Some inst"
    and "\<forall>m\<in>set (s_moves (g_state inst)). m_row m < 3 \<and> m_col m < 3"
    and "distinct (map (\<lambda>m. (m_row m, m_col m)) (s_moves (g_state inst)))"
  shows "\<exists>g. board c = Inr g \<and> length g = 3 \<and> (\<forall>r<3. length (g ! r) = 3)
           \<and> (\<forall>m\<in>set (s_moves (g_state inst)). g ! m_row m ! m_col m = Some (m_gamePiece m))
           \<and> {(r, k). r < 3 \<and> k < 3 \<and> g ! r ! k \<noteq> None}
               = (\<lambda>m. (m_row m, m_col m)) ` set (s_moves (g_state inst))
           \<and> card {(r, k). r < 3 \<and> k < 3 \<and> g ! r ! k \<noteq> None} = length (s_moves (g_state inst))
           \<and> card {(r, k). r < 3 \<and> k < 3 \<and> g ! r ! k = None} = 9 - length (s_moves (g_state inst))
           \<and> length (s_moves (g_state inst)) \<le> 9"
proof -
  let ?ms = "s_moves (g_state inst)"
  from assms(1) have ms: "model_moves c = ?ms"
    by (rule model_moves_of_game)
  from board_distinct_cells [of c] assms(2,3) obtain g where g: "board c = Inr g" "length g = 3"
    "\<forall>r<3. length (g ! r) = 3"
    "\<forall>m\<in>set ?ms. g ! m_row m ! m_col m = Some (m_gamePiece m)"
    "{(r, k). r < 3 \<and> k < 3 \<and> g ! r ! k \<noteq> None} = (\<lambda>m. (m_row m, m_col m)) ` set ?ms"
    "card {(r, k). r < 3 \<and> k < 3 \<and> g ! r ! k \<noteq> None} = length ?ms"
    "card {(r, k). r < 3 \<and> k < 3 \<and> g ! r ! k = None} = 9 - length ?ms"
    unfolding ms by blast
  have "length ?ms \<le> 9"
  proof -
    have "{(r, k). r < 3 \<and> k < 3 \<and> g ! r ! k \<noteq> None} \<subseteq> {..<3} \<times> {..<3}"
      by auto
    then have "card {(r, k). r < 3 \<and> k < 3 \<and> g ! r ! k \<noteq> None} \<le> card ({..<3::nat} \<times> {..<3::nat})"
      by (intro card_mono) simp_all
    with g(6) show ?thesis
      by (simp add: card_cartesian_product)
  qed
  with g show ?thesis by blast
qed

theorem board_of_distinct_moves_witness:
  "a_game (c_model (example_controller (Some (example_game IN_PROGRESS (Some ''us'') (Some ''them'')
        [\<lparr>m_gamePiece = PieceX, m_row = 0, m_col = 0\<rparr>,
         \<lparr>m_gamePiece = PieceO, m_row = 1, m_col = 1\<rparr>])) [0, 1] None))
     = Some (example_game IN_PROGRESS (Some ''us'') (Some ''them'')
        [\<lparr>m_gamePiece = PieceX, m_row = 0, m_col = 0\<rparr>,
         \<lparr>m_gamePiece = PieceO, m_row = 1, m_col = 1\<rparr>])
   \<and> list_all (\<lambda>m. m_row m < 3 \<and> m_col m < 3)
        [\<lparr>m_gamePiece = PieceX, m_row = 0, m_col = 0\<rparr>,
         \<lparr>m_gamePiece = PieceO, m_row = 1, m_col = 1\<rparr>]
   \<and> distinct (map (\<lambda>m. (m_row m, m_col m))
        [\<lparr>m_gamePiece = PieceX, m_row = 0, m_col = 0\<rparr>,
         \<lparr>m_gamePiece = PieceO, m_row = 1, m_col = 1\<rparr>])
   \<and> (\<exists>g. board (example_controller (Some (example_game IN_PROGRESS (Some ''us'') (Some ''them'')
        [\<lparr>m_gamePiece = PieceX, m_row = 0, m_col = 0\<rparr>,
         \<lparr>m_gamePiece = PieceO, m_row = 1, m_col = 1\<rparr>])) [0, 1] None) = Inr g
        \<and> g ! 0 ! 0 = Some PieceX \<and> g ! 1 ! 1 = Some PieceO
        \<and> card {(r, k). r < 3 \<and> k < 3 \<and> g ! r ! k \<noteq> None} = 2
        \<and> card {(r, k). r < 3 \<and> k < 3 \<and> g ! r ! k = None} = 7)"
proof -
  let ?ms = "[\<lparr>m_gamePiece = PieceX, m_row = 0, m_col = 0\<rparr>,
         \<lparr>m_gamePiece = PieceO, m_row = 1, m_col = 1\<rparr>]"
  let ?inst = "example_game IN_PROGRESS (Some ''us'') (Some ''them'') ?ms"
  let ?c = "example_controller (Some ?inst) [0, 1] None"
  have gm: "a_game (c_model ?c) = Some ?inst"
    by (simp add: example_defs)
  have ms: "s_moves (g_state ?inst) = ?ms"
    by (simp add: example_game_def)
  have a: "\<forall>m\<in>set (s_moves (g_state ?inst)). m_row m < 3 \<and> m_col m < 3"
    unfolding ms by simp
  have b: "distinct (map (\<lambda>m. (m_row m, m_col m)) (s_moves (g_state ?inst)))"
    unfolding ms by simp
  from board_of_distinct_moves [OF gm a b] obtain g where g: "board ?c = Inr g"
    "\<forall>m\<in>set (s_moves (g_state ?inst)). g ! m_row m ! m_col m = Some (m_gamePiece m)"
    "card {(r, k). r < 3 \<and> k < 3 \<and> g ! r ! k \<noteq> None} = length (s_moves (g_state ?inst))"
    "card {(r, k). r < 3 \<and> k < 3 \<and> g ! r ! k = None} = 9 - length (s_moves (g_state ?inst))"
    by blast
  from g(2) have "g ! 0 ! 0 = Some PieceX \<and> g ! 1 ! 1 = Some PieceO"
    unfolding ms by simp
  moreover from g(3) have "card {(r, k). r < 3 \<and> k < 3 \<and> g ! r ! k \<noteq> None} = 2"
    unfolding ms by simp
  moreover from g(4) have "card {(r, k). r < 3 \<and> k < 3 \<and> g ! r ! k = None} = 7"
    unfolding ms by simp
  ultimately show ?thesis using g(1) gm
    by auto
qed

section \<open>Applying a snapshot: the events\<close>

lemma length_array_set: "length a \<le> length (array_set a j v)"
  by (simp add: array_set_def)

lemma board_loop_shape:
  assumes "board_loop ms b = Inr g"
  shows "length g = length b \<and> (\<forall>i<length b. length (b ! i) \<le> length (g ! i))"
  using assms
proof (induction ms arbitrary: b)
  case Nil
  then show ?case by simp
next
  case (Cons m ms)
  let ?b = "b[m_row m := array_set (b ! m_row m) (m_col m) (Some (m_gamePiece m))]"
  from Cons.prems have in_range: "m_row m < length b" and rest: "board_loop ms ?b = Inr g"
    by (simp_all split: if_splits)
  from Cons.IH [OF rest]
  have len: "length g = length b" and rows: "\<forall>i<length b. length (?b ! i) \<le> length (g ! i)"
    by simp_all
  have "length (b ! i) \<le> length (g ! i)" if "i < length b" for i
  proof -
    have "length (b ! i) \<le> length (?b ! i)"
      using that by (cases "i = m_row m") (simp_all add: length_array_set)
    with rows that show ?thesis by fastforce
  qed
  with len show ?case by simp
qed

lemma board_shape:
  assumes "board c = Inr g"
  shows "length g = 3 \<and> (\<forall>i<3. 3 \<le> length (g ! i))"
proof -
  from assms obtain ms where "board_loop ms emptyBoard = Inr g"
    by (auto simp add: board_def Let_def)
  from board_loop_shape [OF this]
  have len: "length g = 3" and rows: "\<forall>i<3. length (emptyBoard ! i) \<le> length (g ! i)"
    by (simp_all add: emptyBoard_def)
  have "length (emptyBoard ! i) = 3" if "i < 3" for i
    using that by (auto simp add: emptyBoard_def less_Suc_eq numeral_3_eq_3)
  with len rows show ?thesis by auto
qed

lemma read_cell_in_range:
  assumes "i < length b" and "j < length (b ! i)"
  shows "read_cell b i j = Inr (b ! i ! j)"
  using assms by (simp add: read_cell_def)

lemma areBoardEqual_cols_shaped:
  assumes "i < length b1" and "i < length b2" and "3 \<le> length (b1 ! i)" and "3 \<le> length (b2 ! i)"
  shows "areBoardEqual_cols b1 b2 i [0, 1, 2] = Inr (\<forall>j<3. b1 ! i ! j = b2 ! i ! j)"
proof -
  have "read_cell b1 i j = Inr (b1 ! i ! j)" and "read_cell b2 i j = Inr (b2 ! i ! j)" if "j < 3" for j
    using that assms by (simp_all add: read_cell_def)
  from this [of 0] this [of 1] this [of 2] show ?thesis
    unfolding areBoardEqual_cols.simps by (auto simp add: all_less_3)
qed

lemma areBoardEqual_shaped:
  assumes "length b1 = 3" and "\<forall>i<3. 3 \<le> length (b1 ! i)"
    and "length b2 = 3" and "\<forall>i<3. 3 \<le> length (b2 ! i)"
  shows "areBoardEqual b1 b2 = Inr (\<forall>i<3. \<forall>j<3. b1 ! i ! j = b2 ! i ! j)"
proof -
  have cols: "areBoardEqual_cols b1 b2 i [0, 1, 2] = Inr (\<forall>j<3. b1 ! i ! j = b2 ! i ! j)" if "i < 3" for i
    using that assms by (intro areBoardEqual_cols_shaped) simp_all
  have "areBoardEqual b1 b2
      = Inr ((\<forall>j<3. b1 ! 0 ! j = b2 ! 0 ! j) \<and> (\<forall>j<3. b1 ! 1 ! j = b2 ! 1 ! j) \<and> (\<forall>j<3. b1 ! 2 ! j = b2 ! 2 ! j))"
  proof -
    have c0: "areBoardEqual_cols b1 b2 0 [0, 1, 2] = Inr (\<forall>j<3. b1 ! 0 ! j = b2 ! 0 ! j)"
      by (rule cols) simp
    have c1: "areBoardEqual_cols b1 b2 1 [0, 1, 2] = Inr (\<forall>j<3. b1 ! 1 ! j = b2 ! 1 ! j)"
      by (rule cols) simp
    have c2: "areBoardEqual_cols b1 b2 2 [0, 1, 2] = Inr (\<forall>j<3. b1 ! 2 ! j = b2 ! 2 ! j)"
      by (rule cols) simp
    show ?thesis
      unfolding areBoardEqual_def areBoardEqual_rows.simps c0 c1 c2 by auto
  qed
  then show ?thesis
    by (simp add: all_less_3 [where P = "\<lambda>i. \<forall>j<3. b1 ! i ! j = b2 ! i ! j"])
qed

lemma updateFrom_emitted:
  assumes "board c = Inr oldBoard" and "board (fst (super_updateFrom newModel c)) = Inr newBoard"
  shows "updateFrom super_updateFrom newModel c =
           (fst (super_updateFrom newModel c),
            map GameEventTypes (snd (super_updateFrom newModel c))
              @ (if \<exists>i<3. \<exists>j<3. oldBoard ! i ! j \<noteq> newBoard ! i ! j then [boardChanged newBoard] else [])
              @ (if isOurTurn c \<noteq> isOurTurn (fst (super_updateFrom newModel c))
                 then [turnChanged (isOurTurn (fst (super_updateFrom newModel c)))] else []),
            None)"
proof -
  from board_shape [OF assms(1)] board_shape [OF assms(2)]
  have "areBoardEqual oldBoard newBoard = Inr (\<forall>i<3. \<forall>j<3. oldBoard ! i ! j = newBoard ! i ! j)"
    by (intro areBoardEqual_shaped) simp_all
  with assms show ?thesis
    by (simp add: updateFrom_def Let_def)
qed

text \<open>
  C2. Applying a snapshot emits \<^verbatim>\<open>boardChanged\<close> exactly when one of the nine cells
  of the board derived after the call to the base class differs from the same cell of
  the board derived before it; the event carries the new board. In particular no such
  event is emitted when the boards agree cell by cell, whatever else changed in the
  snapshot. Both boards are taken to exist, so the method ends without an error.
\<close>

theorem boardChanged_iff_cell_differs:
  assumes "board c = Inr oldBoard" and "board (fst (super_updateFrom newModel c)) = Inr newBoard"
  shows "((\<exists>b. boardChanged b \<in> set (fst (snd (updateFrom super_updateFrom newModel c))))
            \<longleftrightarrow> (\<exists>i<3. \<exists>j<3. oldBoard ! i ! j \<noteq> newBoard ! i ! j))
       \<and> (\<forall>b. boardChanged b \<in> set (fst (snd (updateFrom super_updateFrom newModel c))) \<longrightarrow> b = newBoard)
       \<and> snd (snd (updateFrom super_updateFrom newModel c)) = None"
proof -
  let ?events = "fst (snd (updateFrom super_updateFrom newModel c))"
  let ?differs = "\<exists>i<3. \<exists>j<3. oldBoard ! i ! j \<noteq> newBoard ! i ! j"
  note run = updateFrom_emitted [where c = c and super_updateFrom = super_updateFrom
      and newModel = newModel, OF assms]
  have ended: "snd (snd (updateFrom super_updateFrom newModel c)) = None"
    by (simp add: run)
  have "boardChanged b \<in> set ?events \<longleftrightarrow> ?differs \<and> b = newBoard" for b
    by (auto simp add: run)
  with ended show ?thesis by blast
qed

theorem boardChanged_iff_cell_differs_witness:
  "board (example_controller (Some (example_game IN_PROGRESS (Some ''us'') (Some ''them'')
       [\<lparr>m_gamePiece = PieceX, m_row = 0, m_col = 1\<rparr>])) [0, 1] (Some ''g1''))
    = Inr [[None, Some PieceX, None], [None, None, None], [None, None, None]]
   \<and> board (fst (replace_snapshot
       (example_model (Some (example_game OVER (Some ''us'') (Some ''them'') [\<lparr>m_gamePiece = PieceX, m_row = 0, m_col = 1\<rparr>])))
       (example_controller (Some (example_game IN_PROGRESS (Some ''us'') (Some ''them'')
          [\<lparr>m_gamePiece = PieceX, m_row = 0, m_col = 1\<rparr>])) [0, 1] (Some ''g1''))))
    = Inr [[None, Some PieceX, None], [None, None, None], [None, None, None]]
   \<and> \<not> (\<exists>b. boardChanged b \<in> set (fst (snd (updateFrom replace_snapshot
       (example_model (Some (example_game OVER (Some ''us'') (Some ''them'') [\<lparr>m_gamePiece = PieceX, m_row = 0, m_col = 1\<rparr>])))
       (example_controller (Some (example_game IN_PROGRESS (Some ''us'') (Some ''them'')
          [\<lparr>m_gamePiece = PieceX, m_row = 0, m_col = 1\<rparr>])) [0, 1] (Some ''g1''))))))"
proof -
  let ?ms = "[\<lparr>m_gamePiece = PieceX, m_row = 0, m_col = 1\<rparr>]"
  let ?c = "example_controller (Some (example_game IN_PROGRESS (Some ''us'') (Some ''them'') ?ms)) [0, 1] (Some ''g1'')"
  let ?m = "example_model (Some (example_game OVER (Some ''us'') (Some ''them'') ?ms))"
  let ?b = "[[None, Some PieceX, None], [None, None, None], [None, None, None]]"
  have a: "board ?c = Inr ?b"
    by (simp add: example_defs board_def model_moves_def gameState_def emptyBoard_def array_set_def)
  have b: "board (fst (replace_snapshot ?m ?c)) = Inr ?b"
    by (simp add: example_defs replace_snapshot_def board_def model_moves_def gameState_def
        emptyBoard_def array_set_def)
  have same: "\<not> (\<exists>i<3. \<exists>j<3. ?b ! i ! j \<noteq> ?b ! i ! j)"
    by simp
  from boardChanged_iff_cell_differs [where super_updateFrom = replace_snapshot and newModel = ?m, OF a b]
    a b same show ?thesis
    by simp
qed

text \<open>
  C3. Applying a snapshot emits \<^verbatim>\<open>turnChanged\<close> exactly when the value of
  \<^verbatim>\<open>isOurTurn\<close> after the call to the base class differs from its value before, and
  the event carries the new value.
\<close>

theorem turnChanged_iff_turn_differs:
  assumes "board c = Inr oldBoard" and "board (fst (super_updateFrom newModel c)) = Inr newBoard"
  shows "(turnChanged t \<in> set (fst (snd (updateFrom super_updateFrom newModel c)))
            \<longleftrightarrow> isOurTurn (fst (super_updateFrom newModel c)) \<noteq> isOurTurn c
                \<and> t = isOurTurn (fst (super_updateFrom newModel c)))
       \<and> snd (snd (updateFrom super_updateFrom newModel c)) = None"
proof -
  let ?after = "fst (super_updateFrom newModel c)"
  note run = updateFrom_emitted [where c = c and super_updateFrom = super_updateFrom
      and newModel = newModel, OF assms]
  have ended: "snd (snd (updateFrom super_updateFrom newModel c)) = None"
    by (simp add: run)
  show ?thesis
  proof (cases "isOurTurn c = isOurTurn ?after")
    case True
    then have "turnChanged t \<notin> set (fst (snd (updateFrom super_updateFrom newModel c)))"
      by (auto simp add: run)
    with True ended show ?thesis by simp
  next
    case False
    then have "turnChanged t \<in> set (fst (snd (updateFrom super_updateFrom newModel c)))
        \<longleftrightarrow> t = isOurTurn ?after"
      by (auto simp add: run)
    with False ended show ?thesis by auto
  qed
qed

theorem turnChanged_iff_turn_differs_witness:
  "board (example_controller (Some (example_game IN_PROGRESS (Some ''us'') (Some ''them'') [])) [0, 1] (Some ''g1''))
    = Inr [[None, None, None], [None, None, None], [None, None, None]]
   \<and> board (fst (replace_snapshot
       (example_model (Some (example_game IN_PROGRESS (Some ''us'') (Some ''them'') [\<lparr>m_gamePiece = PieceX, m_row = 0, m_col = 1\<rparr>])))
       (example_controller (Some (example_game IN_PROGRESS (Some ''us'') (Some ''them'') [])) [0, 1] (Some ''g1''))))
    = Inr [[None, Some PieceX, None], [None, None, None], [None, None, None]]
   \<and> isOurTurn (example_controller (Some (example_game IN_PROGRESS (Some ''us'') (Some ''them'') [])) [0, 1] (Some ''g1''))
   \<and> turnChanged False \<in> set (fst (snd (updateFrom replace_snapshot
       (example_model (Some (example_game IN_PROGRESS (Some ''us'') (Some ''them'') [\<lparr>m_gamePiece = PieceX, m_row = 0, m_col = 1\<rparr>])))
       (example_controller (Some (example_game IN_PROGRESS (Some ''us'') (Some ''them'') [])) [0, 1] (Some ''g1'')))))
   \<and> turnChanged True \<notin> set (fst (snd (updateFrom replace_snapshot
       (example_model (Some (example_game IN_PROGRESS (Some ''us'') (Some ''them'') [\<lparr>m_gamePiece = PieceX, m_row = 0, m_col = 1\<rparr>])))
       (example_controller (Some (example_game IN_PROGRESS (Some ''us'') (Some ''them'') [])) [0, 1] (Some ''g1'')))))"
proof -
  let ?ms = "[\<lparr>m_gamePiece = PieceX, m_row = 0, m_col = 1\<rparr>]"
  let ?c = "example_controller (Some (example_game IN_PROGRESS (Some ''us'') (Some ''them'') [])) [0, 1] (Some ''g1'')"
  let ?m = "example_model (Some (example_game IN_PROGRESS (Some ''us'') (Some ''them'') ?ms))"
  have a: "board ?c = Inr [[None, None, None], [None, None, None], [None, None, None]]"
    by (simp add: example_defs board_def model_moves_def gameState_def emptyBoard_def)
  have b: "board (fst (replace_snapshot ?m ?c)) = Inr [[None, Some PieceX, None], [None, None, None], [None, None, None]]"
    by (simp add: example_defs replace_snapshot_def board_def model_moves_def gameState_def
        emptyBoard_def array_set_def)
  have before: "isOurTurn ?c"
    by (simp add: example_defs isOurTurn_def whoseTurn_def moveCount_def model_moves_def
        gameState_def truthy_string_def)
  have after: "\<not> isOurTurn (fst (replace_snapshot ?m ?c))"
    by (simp add: example_defs replace_snapshot_def isOurTurn_def whoseTurn_def moveCount_def
        model_moves_def gameState_def truthy_string_def)
  from turnChanged_iff_turn_differs [where super_updateFrom = replace_snapshot and newModel = ?m and t = False, OF a b]
    turnChanged_iff_turn_differs [where super_updateFrom = replace_snapshot and newModel = ?m and t = True, OF a b]
    a b before after
  show ?thesis by simp
qed

section \<open>The leaderboard: the tally\<close>

subsection \<open>The innermost loop\<close>

lemma opponent_loop_name:
  "name (opponent_loop scores p ps opps st) = name st"
  by (induction opps arbitrary: st) simp_all

lemma opponent_loop_wins:
  "wins (opponent_loop scores p ps opps st)
     = wins st + length (filter (\<lambda>q. q \<noteq> p \<and> js_gt ps (map_of scores q)) opps)"
  by (induction opps arbitrary: st) simp_all

lemma opponent_loop_losses:
  "losses (opponent_loop scores p ps opps st)
     = losses st + length (filter (\<lambda>q. q \<noteq> p \<and> \<not> js_gt ps (map_of scores q) \<and> js_lt ps (map_of scores q)) opps)"
  by (induction opps arbitrary: st) simp_all

lemma opponent_loop_ties:
  "ties (opponent_loop scores p ps opps st)
     = ties st + length (filter (\<lambda>q. q \<noteq> p \<and> \<not> js_gt ps (map_of scores q) \<and> \<not> js_lt ps (map_of scores q)) opps)"
  by (induction opps arbitrary: st) simp_all

text \<open>Counting over the keys with lookups is counting over the entries, when the keys are distinct.\<close>

lemma count_keys_entries:
  assumes "distinct (map fst scores)"
  shows "length (filter (\<lambda>q. case map_of scores q of None \<Rightarrow> False | Some v \<Rightarrow> P q v) (map fst scores))
       = length (filter (\<lambda>(q, v). P q v) scores)"
proof -
  have "filter ((\<lambda>q. case map_of scores q of None \<Rightarrow> False | Some v \<Rightarrow> P q v) \<circ> fst) scores
      = filter (\<lambda>(q, v). P q v) scores"
    using assms by (intro filter_cong) auto
  then show ?thesis
    by (simp add: filter_map)
qed

lemma keys_wins:
  assumes "distinct (map fst scores)" and "map_of scores p = Some u"
  shows "length (filter (\<lambda>q. q \<noteq> p \<and> js_gt (map_of scores p) (map_of scores q)) (Object_keys scores))
       = wins_in scores p"
proof -
  have "(\<lambda>q. q \<noteq> p \<and> js_gt (map_of scores p) (map_of scores q))
      = (\<lambda>q. case map_of scores q of None \<Rightarrow> False | Some v \<Rightarrow> q \<noteq> p \<and> u > v)"
    using assms(2) by (auto simp add: js_gt_def fun_eq_iff split: option.splits)
  with count_keys_entries [OF assms(1), of "\<lambda>q v. q \<noteq> p \<and> u > v"] assms(2) show ?thesis
    by (simp add: wins_in_def Object_keys_def)
qed

lemma keys_losses:
  assumes "distinct (map fst scores)" and "map_of scores p = Some u"
  shows "length (filter (\<lambda>q. q \<noteq> p \<and> \<not> js_gt (map_of scores p) (map_of scores q)
                             \<and> js_lt (map_of scores p) (map_of scores q)) (Object_keys scores))
       = losses_in scores p"
proof -
  have "(\<lambda>q. q \<noteq> p \<and> \<not> js_gt (map_of scores p) (map_of scores q) \<and> js_lt (map_of scores p) (map_of scores q))
      = (\<lambda>q. case map_of scores q of None \<Rightarrow> False | Some v \<Rightarrow> q \<noteq> p \<and> v > u)"
    using assms(2) by (auto simp add: js_gt_def js_lt_def fun_eq_iff split: option.splits)
  with count_keys_entries [OF assms(1), of "\<lambda>q v. q \<noteq> p \<and> v > u"] assms(2) show ?thesis
    by (simp add: losses_in_def Object_keys_def)
qed

lemma keys_ties:
  assumes "distinct (map fst scores)" and "map_of scores p = Some u"
  shows "length (filter (\<lambda>q. q \<noteq> p \<and> \<not> js_gt (map_of scores p) (map_of scores q)
                             \<and> \<not> js_lt (map_of scores p) (map_of scores q)) (Object_keys scores))
       = ties_in scores p"
proof -
  have "filter (\<lambda>q. q \<noteq> p \<and> \<not> js_gt (map_of scores p) (map_of scores q) \<and> \<not> js_lt (map_of scores p) (map_of scores q))
          (map fst scores)
      = filter (\<lambda>q. case map_of scores q of None \<Rightarrow> False | Some v \<Rightarrow> q \<noteq> p \<and> v = u) (map fst scores)"
    using assms(2)
    by (intro filter_cong) (auto simp add: js_gt_def js_lt_def split: option.splits dest: weak_map_of_SomeI)
  with count_keys_entries [OF assms(1), of "\<lambda>q v. q \<noteq> p \<and> v = u"] assms(2) show ?thesis
    by (simp add: ties_in_def Object_keys_def)
qed

subsection \<open>The statistics map\<close>

lemma map_of_statsMap_set: "map_of (statsMap_set m k v) = (map_of m)(k \<mapsto> v)"
  by (induction m) (auto simp add: fun_eq_iff)

lemma keys_statsMap_set: "fst ` set (statsMap_set m k v) = insert k (fst ` set m)"
  by (simp add: dom_map_of_conv_image_fst [symmetric] map_of_statsMap_set)

lemma distinct_statsMap_set:
  assumes "distinct (map fst m)"
  shows "distinct (map fst (statsMap_set m k v))"
  using assms by (induction m) (auto simp add: keys_statsMap_set)

lemma player_loop_map_of:
  assumes "distinct rest"
  shows "map_of (player_loop scores (Object_keys scores) rest m) k
       = (if k \<in> set rest then Some (step_stats scores k (map_of m k)) else map_of m k)"
  using assms
proof (induction rest arbitrary: m)
  case Nil
  then show ?case by simp
next
  case (Cons p rest)
  then show ?case
    by (auto simp add: Let_def map_of_statsMap_set step_stats_def)
qed

lemma player_loop_keys:
  "fst ` set (player_loop scores players rest m) = fst ` set m \<union> set rest"
  by (induction rest arbitrary: m) (simp_all add: Let_def keys_statsMap_set)

lemma player_loop_distinct:
  assumes "distinct (map fst m)"
  shows "distinct (map fst (player_loop scores players rest m))"
  using assms by (induction rest arbitrary: m) (simp_all add: Let_def distinct_statsMap_set)

subsection \<open>The invariant of the tally\<close>

lemma not_in_result:
  assumes "p \<notin> set (Object_keys scores)"
  shows "wins_in scores p = 0" and "losses_in scores p = 0" and "ties_in scores p = 0"
proof -
  from assms have "map_of scores p = None"
    by (simp add: Object_keys_def map_of_eq_None_iff)
  then show "wins_in scores p = 0" and "losses_in scores p = 0" and "ties_in scores p = 0"
    by (simp_all add: wins_in_def losses_in_def ties_in_def)
qed

lemma not_a_player:
  assumes "p \<notin> players_of results"
  shows "total_wins results p = 0" and "total_losses results p = 0" and "total_ties results p = 0"
  using assms
  by (simp_all add: players_of_def total_wins_def total_losses_def total_ties_def not_in_result)

lemma totals_snoc:
  "total_wins (seen @ [r]) p = total_wins seen p + wins_in (r_scores r) p"
  "total_losses (seen @ [r]) p = total_losses seen p + losses_in (r_scores r) p"
  "total_ties (seen @ [r]) p = total_ties seen p + ties_in (r_scores r) p"
  by (simp_all add: total_wins_def total_losses_def total_ties_def)

lemma players_of_snoc:
  "players_of (seen @ [r]) = players_of seen \<union> set (Object_keys (r_scores r))"
  by (auto simp add: players_of_def)

lemma step_stats_tally:
  assumes "distinct (map fst scores)" and "k \<in> set (Object_keys scores)"
  shows "name (step_stats scores k old) = (case old of Some s \<Rightarrow> name s | None \<Rightarrow> k)"
    and "wins (step_stats scores k old) = (case old of Some s \<Rightarrow> wins s | None \<Rightarrow> 0) + wins_in scores k"
    and "losses (step_stats scores k old) = (case old of Some s \<Rightarrow> losses s | None \<Rightarrow> 0) + losses_in scores k"
    and "ties (step_stats scores k old) = (case old of Some s \<Rightarrow> ties s | None \<Rightarrow> 0) + ties_in scores k"
proof -
  from assms(2) obtain u where u: "map_of scores k = Some u"
    by (auto simp add: Object_keys_def dest: weak_map_of_SomeI)
  show "name (step_stats scores k old) = (case old of Some s \<Rightarrow> name s | None \<Rightarrow> k)"
    by (simp add: step_stats_def opponent_loop_name split: option.splits)
  show "wins (step_stats scores k old) = (case old of Some s \<Rightarrow> wins s | None \<Rightarrow> 0) + wins_in scores k"
    by (simp add: step_stats_def opponent_loop_wins keys_wins [OF assms(1) u] split: option.splits)
  show "losses (step_stats scores k old) = (case old of Some s \<Rightarrow> losses s | None \<Rightarrow> 0) + losses_in scores k"
    by (simp add: step_stats_def opponent_loop_losses keys_losses [OF assms(1) u] split: option.splits)
  show "ties (step_stats scores k old) = (case old of Some s \<Rightarrow> ties s | None \<Rightarrow> 0) + ties_in scores k"
    by (simp add: step_stats_def opponent_loop_ties keys_ties [OF assms(1) u] split: option.splits)
qed

lemma tallied_player_loop:
  assumes inv: "tallied seen m" and keys: "distinct (map fst (r_scores r))"
  shows "tallied (seen @ [r])
           (player_loop (r_scores r) (Object_keys (r_scores r)) (Object_keys (r_scores r)) m)"
proof -
  let ?sc = "r_scores r"
  let ?m' = "player_loop ?sc (Object_keys ?sc) (Object_keys ?sc) m"
  from keys have dk: "distinct (Object_keys ?sc)" by (simp add: Object_keys_def)
  from inv have dm: "distinct (map fst m)" and km: "fst ` set m = players_of seen"
    and old: "\<And>k s. map_of m k = Some s \<Longrightarrow>
        name s = k \<and> wins s = total_wins seen k \<and> losses s = total_losses seen k \<and> ties s = total_ties seen k"
    by (simp_all add: tallied_def)
  have "distinct (map fst ?m')"
    using dm by (rule player_loop_distinct)
  moreover have "fst ` set ?m' = players_of (seen @ [r])"
    by (simp add: player_loop_keys km players_of_snoc)
  moreover have "name s = k \<and> wins s = total_wins (seen @ [r]) k
      \<and> losses s = total_losses (seen @ [r]) k \<and> ties s = total_ties (seen @ [r]) k"
    if s: "map_of ?m' k = Some s" for k s
  proof (cases "k \<in> set (Object_keys ?sc)")
    case True
    with s player_loop_map_of [OF dk, of ?sc m k] have s_eq: "s = step_stats ?sc k (map_of m k)"
      by simp
    show ?thesis
    proof (cases "map_of m k")
      case None
      then have "k \<notin> players_of seen"
        using km by (simp add: map_of_eq_None_iff)
      with None show ?thesis
        by (simp add: s_eq step_stats_tally [OF keys True] totals_snoc not_a_player)
    next
      case (Some s0)
      with old [OF Some] show ?thesis
        by (simp add: s_eq step_stats_tally [OF keys True] totals_snoc)
    qed
  next
    case False
    with s player_loop_map_of [OF dk, of ?sc m k] have "map_of m k = Some s"
      by simp
    from old [OF this] False show ?thesis
      by (simp add: totals_snoc not_in_result)
  qed
  ultimately show ?thesis
    by (simp add: tallied_def)
qed

lemma tallied_result_loop:
  assumes "tallied seen m" and "\<forall>r\<in>set rest. distinct (map fst (r_scores r))"
  shows "tallied (seen @ rest) (result_loop rest m)"
  using assms
proof (induction rest arbitrary: seen m)
  case Nil
  then show ?case by simp
next
  case (Cons r rest)
  from Cons.prems have "tallied (seen @ [r])
      (player_loop (r_scores r) (Object_keys (r_scores r)) (Object_keys (r_scores r)) m)"
    by (intro tallied_player_loop) simp_all
  from Cons.IH [OF this] Cons.prems(2) show ?case
    by (simp add: Let_def)
qed

lemma tallied_Leaderboard:
  assumes "\<forall>r\<in>set results. distinct (map fst (r_scores r))"
  shows "tallied results (result_loop results [])"
proof -
  have "tallied [] []"
    by (simp add: tallied_def players_of_def)
  from tallied_result_loop [OF this assms] show ?thesis by simp
qed

lemma distinct_map_sort_key:
  "distinct (map g (sort_key f xs)) \<longleftrightarrow> distinct (map g xs)"
  by (simp add: distinct_map)

text \<open>
  C7. When the keys of every result are distinct, as the keys of an object are, the
  leaderboard has one row per player encountered in the results; the row of a player
  holds the wins, losses and ties that the pairwise comparison credits to that player
  over all results; and the rows are in descending order of wins. For the single result
  with scores A: 1 and B: 0 the rows are A with 1 win, 0 losses, 0 ties, then B with 0
  wins, 1 loss, 0 ties.
\<close>

theorem Leaderboard_tally:
  assumes "\<forall>result\<in>set results. distinct (Object_keys (r_scores result))"
  shows "distinct (map name (Leaderboard results))
       \<and> name ` set (Leaderboard results) = players_of results
       \<and> (\<forall>s\<in>set (Leaderboard results).
             wins s = total_wins results (name s)
             \<and> losses s = total_losses results (name s)
             \<and> ties s = total_ties results (name s))
       \<and> sorted_wrt (\<lambda>a b. wins a \<ge> wins b) (Leaderboard results)
       \<and> Leaderboard [\<lparr>r_gameID = gid, r_scores = [(''A'', 1), (''B'', 0)]\<rparr>]
           = [\<lparr>name = ''A'', wins = 1, losses = 0, ties = 0\<rparr>,
              \<lparr>name = ''B'', wins = 0, losses = 1, ties = 0\<rparr>]"
proof -
  let ?m = "result_loop results []"
  from assms have "tallied results ?m"
    by (intro tallied_Leaderboard) (simp add: Object_keys_def)
  then have dm: "distinct (map fst ?m)" and km: "fst ` set ?m = players_of results"
    and row: "\<And>k s. map_of ?m k = Some s \<Longrightarrow>
        name s = k \<and> wins s = total_wins results k \<and> losses s = total_losses results k
        \<and> ties s = total_ties results k"
    by (simp_all add: tallied_def)
  have entry: "name s = k \<and> wins s = total_wins results k \<and> losses s = total_losses results k
      \<and> ties s = total_ties results k" if "(k, s) \<in> set ?m" for k s
    using that dm row by simp
  have names: "map name (map snd ?m) = map fst ?m"
    using entry by (auto intro!: map_cong [OF refl])
  have rows: "set (Leaderboard results) = snd ` set ?m"
    by (simp add: Leaderboard_def)
  have "distinct (map name (Leaderboard results))"
    using dm names by (simp add: Leaderboard_def distinct_map_sort_key del: map_map)
  moreover have "name ` set (Leaderboard results) = players_of results"
  proof -
    have "name ` set (Leaderboard results) = set (map name (map snd ?m))"
      by (simp add: rows image_image)
    with names km show ?thesis by simp
  qed
  moreover have "wins s = total_wins results (name s) \<and> losses s = total_losses results (name s)
      \<and> ties s = total_ties results (name s)" if "s \<in> set (Leaderboard results)" for s
  proof -
    from that rows obtain k where "(k, s) \<in> set ?m" by auto
    from entry [OF this] show ?thesis by simp
  qed
  moreover have "sorted_wrt (\<lambda>a b. wins a \<ge> wins b) (Leaderboard results)"
  proof -
    have "sorted (map (\<lambda>s. - int (wins s)) (Leaderboard results))"
      by (simp add: Leaderboard_def)
    then show ?thesis
      by (simp add: sorted_map)
  qed
  moreover have "Leaderboard [\<lparr>r_gameID = gid, r_scores = [(''A'', 1), (''B'', 0)]\<rparr>]
           = [\<lparr>name = ''A'', wins = 1, losses = 0, ties = 0\<rparr>,
              \<lparr>name = ''B'', wins = 0, losses = 1, ties = 0\<rparr>]"
    by (simp add: Leaderboard_def Object_keys_def js_gt_def js_lt_def)
  ultimately show ?thesis by blast
qed

theorem Leaderboard_tally_witness:
  "distinct (Object_keys [(''A'', 1), (''B'', 1), (''C'', 0)])
   \<and> total_wins [\<lparr>r_gameID = ''g1'', r_scores = [(''A'', 1), (''B'', 1), (''C'', 0)]\<rparr>,
                  \<lparr>r_gameID = ''g2'', r_scores = [(''C'', 1), (''A'', 0)]\<rparr>] ''A'' = 1
   \<and> name ` set (Leaderboard [\<lparr>r_gameID = ''g1'', r_scores = [(''A'', 1), (''B'', 1), (''C'', 0)]\<rparr>,
                  \<lparr>r_gameID = ''g2'', r_scores = [(''C'', 1), (''A'', 0)]\<rparr>]) = {''A'', ''B'', ''C''}
   \<and> Leaderboard [\<lparr>r_gameID = ''g1'', r_scores = [(''A'', 1), (''B'', 1), (''C'', 0)]\<rparr>,
                  \<lparr>r_gameID = ''g2'', r_scores = [(''C'', 1), (''A'', 0)]\<rparr>]
       = [\<lparr>name = ''A'', wins = 1, losses = 1, ties = 1\<rparr>,
          \<lparr>name = ''B'', wins = 1, losses = 0, ties = 1\<rparr>,
          \<lparr>name = ''C'', wins = 1, losses = 2, ties = 0\<rparr>]"
proof -
  let ?rs = "[\<lparr>r_gameID = ''g1'', r_scores = [(''A'', 1), (''B'', 1), (''C'', 0)]\<rparr>,
              \<lparr>r_gameID = ''g2'', r_scores = [(''C'', 1), (''A'', 0)]\<rparr>]"
  have a: "\<forall>result\<in>set ?rs. distinct (Object_keys (r_scores result))"
    by (simp add: Object_keys_def)
  have b: "players_of ?rs = {''A'', ''B'', ''C''}"
    by (auto simp add: players_of_def Object_keys_def)
  have c: "total_wins ?rs ''A'' = 1"
    by (simp add: total_wins_def wins_in_def)
  have d: "Leaderboard ?rs
       = [\<lparr>name = ''A'', wins = 1, losses = 1, ties = 1\<rparr>,
          \<lparr>name = ''B'', wins = 1, losses = 0, ties = 1\<rparr>,
          \<lparr>name = ''C'', wins = 1, losses = 2, ties = 0\<rparr>]"
    by (simp add: Leaderboard_def Object_keys_def js_gt_def js_lt_def)
  from Leaderboard_tally [OF a] b c d show ?thesis
    by (simp add: Object_keys_def)
qed

end
